theory Spec2Isabelle
  imports Main
begin

section \<open>The supervisor \<open>ruc\<close>: data model\<close>

text \<open>
  The program (\<open>src/main.go\<close>) starts a child program, waits in a Go \<open>select\<close> for the
  context, the child's exit or a ticker, sends SIGTERM, waits again, sends SIGKILL, and
  waits for the exit. The goroutines and channels are modelled by the instants at which
  each channel becomes ready: time is a natural number (nanoseconds), counted from the
  start of a cycle inside \<open>run\<close> and from the start of the process inside \<open>main\<close>.
  Durations are integers, as \<open>time.Duration\<close> is, because the flags accept zero and
  negative values.
\<close>

type_synonym time = nat

datatype signal = SIGINT | SIGKILL | SIGTERM

text \<open>
  \<open>os.ProcessState\<close> of a finished child: an exit code, or the signal that ended it.
\<close>

datatype process_state = Exited nat | Signaled signal

text \<open>
  The \<open>error\<close> values that \<open>run\<close> returns. \<open>cmd.Start\<close> returns the error of the \<open>$PATH\<close>
  lookup that \<open>exec.Command\<close> made, or the error of starting the process; \<open>cmd.Wait\<close> returns
  an \<open>*exec.ExitError\<close>; in the earlier version \<open>cmd.Start\<close> can also return the error of a
  context that is done. The value \<open>nil\<close> is \<open>None\<close> of \<open>error option\<close>.
\<close>

datatype error = LookPathError string | StartError string | ExitError process_state | CtxError

text \<open>
  \<open>cmd.Wait\<close> of package \<open>os/exec\<close> returns \<open>nil\<close> when the command exits with status
  zero and an \<open>*ExitError\<close> for every other state (a non-zero status or a death by signal).
\<close>

definition wait_err :: "process_state \<Rightarrow> error option" where
  "wait_err s = (if s = Exited 0 then None else Some (ExitError s))"

text \<open>
  What is observable of the main goroutine: the child was started,
  \<open>cmd.Process.Signal\<close> was called, the \<open>log.Printf\<close> line written when that call
  returned an error, the line of \<open>log.Fatal\<close>, and the usage text.
\<close>

datatype event = Start | Signal signal | LogFailed signal | LogFatal error | Usage

text \<open>
  How a call of \<open>run\<close> ends: it returns an \<open>error\<close> (or \<open>nil\<close>), it panics, or it never
  returns because it is blocked on a channel that never becomes ready.
\<close>

datatype result = Returned "error option" | Panicked | Blocked

record cycle =
  outcome :: result
  finished :: time
  events :: "(time \<times> event) list"

subsection \<open>The child and the operating system\<close>

text \<open>
  The behaviour of one child: \<open>own_exit\<close> is the instant (after the launch) and state of the
  exit it makes when left alone (\<open>None\<close>: it runs forever); \<open>on_term\<close> and \<open>on_kill\<close> are the
  delay and state of the exit it makes once SIGTERM or SIGKILL is delivered (\<open>None\<close>: the
  signal has no effect on it, as for an ignored SIGTERM).
\<close>

record child =
  own_exit :: "(time \<times> process_state) option"
  on_term :: "(time \<times> process_state) option"
  on_kill :: "(time \<times> process_state) option"

text \<open>
  The environment of one cycle: what \<open>cmd.Start\<close> returns, the child, and the two random
  numbers with which the Go runtime chooses among the ready cases of the two \<open>select\<close>
  statements of \<open>run\<close>.
\<close>

record env =
  start_err :: "error option"
  proc :: child
  pick_run :: nat
  pick_grace :: nat

text \<open>The earlier of two scheduled exits; the first one when they coincide.\<close>

definition first_exit ::
  "(time \<times> process_state) option \<Rightarrow> (time \<times> process_state) option \<Rightarrow> (time \<times> process_state) option"
where
  "first_exit a b =
     (case a of None \<Rightarrow> b
      | Some (ta, sa) \<Rightarrow>
          (case b of None \<Rightarrow> a
           | Some (tb, sb) \<Rightarrow> if tb < ta then b else a))"

definition finished_by :: "time \<Rightarrow> (time \<times> process_state) option \<Rightarrow> bool" where
  "finished_by now ex = (case ex of None \<Rightarrow> False | Some (t, s) \<Rightarrow> t \<le> now)"

text \<open>
  \<open>cmd.Process.Signal\<close> at the instant \<open>now\<close>: it returns an error (\<open>False\<close>) when the process
  has already finished; otherwise the signal is delivered and the child's reaction is
  scheduled. The result is the success flag and the exit now scheduled.
\<close>

definition deliver ::
  "time \<Rightarrow> (time \<times> process_state) option \<Rightarrow> (time \<times> process_state) option
     \<Rightarrow> bool \<times> (time \<times> process_state) option"
where
  "deliver now ex reaction =
     (if finished_by now ex then (False, ex)
      else (True, first_exit ex (map_option (\<lambda>(d, s). (now + d, s)) reaction)))"

text \<open>
  The lines \<open>if err := cmd.Process.Signal(sig); err != nil { log.Printf(...) }\<close>.
\<close>

definition send :: "time \<Rightarrow> signal \<Rightarrow> bool \<Rightarrow> (time \<times> event) list" where
  "send now sig ok = (now, Signal sig) # (if ok then [] else [(now, LogFailed sig)])"

subsection \<open>Tickers and \<open>select\<close>\<close>

text \<open>
  \<open>time.NewTicker d\<close> panics when \<open>d\<close> is not positive; otherwise its channel is first
  ready \<open>d\<close> after its creation.
\<close>

definition NewTicker :: "time \<Rightarrow> int \<Rightarrow> time option" where
  "NewTicker now d = (if d \<le> 0 then None else Some (now + nat d))"

text \<open>
  The cases of a \<open>select\<close>: the context's \<open>Done\<close> channel, the channel \<open>done\<close> with the value
  it delivers, a ticker's channel.
\<close>

datatype branch = CtxDone | ChildDone "error option" | Tick

text \<open>A case with the instant at which its channel becomes ready, if it ever does.\<close>

definition ctx_case :: "time option \<Rightarrow> (time \<times> branch) list" where
  "ctx_case ctx = (case ctx of None \<Rightarrow> [] | Some c \<Rightarrow> [(c, CtxDone)])"

text \<open>
  The goroutine \<open>done <- cmd.Wait()\<close>: the channel holds the result of \<open>cmd.Wait\<close> from the
  instant of the child's exit.
\<close>

definition done_case :: "(time \<times> process_state) option \<Rightarrow> (time \<times> branch) list" where
  "done_case ex = (case ex of None \<Rightarrow> [] | Some (t, s) \<Rightarrow> [(t, ChildDone (wait_err s))])"

definition earliest :: "time list \<Rightarrow> time" where
  "earliest ts = fold min (tl ts) (hd ts)"

text \<open>
  A \<open>select\<close> entered at the instant \<open>now\<close> over cases that become ready at the given
  instants (a channel that was ready before counts as ready at \<open>now\<close>). It proceeds at the
  first instant at which a case is ready, and among the cases ready at that instant the
  runtime chooses one at random: the one the number \<open>r\<close> selects. With no case that ever
  becomes ready it blocks forever (\<open>None\<close>).
\<close>

definition select :: "nat \<Rightarrow> time \<Rightarrow> (time \<times> branch) list \<Rightarrow> (time \<times> branch) option" where
  "select r now cs =
     (if cs = [] then None
      else let at = map (\<lambda>(t, b). (max now t, b)) cs;
               t0 = earliest (map fst at);
               ready = filter (\<lambda>(t, b). t = t0) at
           in Some (ready ! (r mod length ready)))"

section \<open>The function \<open>run\<close> (lines 102 to 155)\<close>

text \<open>Lines 148 to 154: send SIGKILL, then \<open>return <-done\<close>.\<close>

definition kill :: "time \<Rightarrow> env \<Rightarrow> (time \<times> process_state) option \<Rightarrow> (time \<times> event) list \<Rightarrow> cycle" where
  "kill now e ex evs =
     (let (ok, ex') = deliver now ex (on_kill (proc e));
          evs' = evs @ send now SIGKILL ok
      in case select 0 now (done_case ex') of
           Some (t, ChildDone err) \<Rightarrow> \<lparr>outcome = Returned err, finished = t, events = evs'\<rparr>
         | _ \<Rightarrow> \<lparr>outcome = Blocked, finished = now, events = evs'\<rparr>)"

text \<open>
  Lines 133 to 146: send SIGTERM, create the grace ticker, wait for the child's exit or
  the ticker; the context is not a case of this \<open>select\<close>.
\<close>

definition terminate :: "time \<Rightarrow> int \<Rightarrow> env \<Rightarrow> (time \<times> process_state) option \<Rightarrow> (time \<times> event) list \<Rightarrow> cycle" where
  "terminate now grace e ex evs =
     (let (ok, ex') = deliver now ex (on_term (proc e));
          evs' = evs @ send now SIGTERM ok
      in case NewTicker now grace of
           None \<Rightarrow> \<lparr>outcome = Panicked, finished = now, events = evs'\<rparr>
         | Some graceT \<Rightarrow>
             (case select (pick_grace e) now (done_case ex' @ [(graceT, Tick)]) of
                Some (t, ChildDone err) \<Rightarrow> \<lparr>outcome = Returned err, finished = t, events = evs'\<rparr>
              | Some (t, _) \<Rightarrow> kill t e ex' evs'
              | None \<Rightarrow> \<lparr>outcome = Blocked, finished = now, events = evs'\<rparr>))"

text \<open>
  Lines 102 to 131: create the run ticker, start the child, wait for the context, the
  child's exit or the ticker. The argument \<open>ctx\<close> is the instant at which the context is
  cancelled (\<open>None\<close>: never; \<open>Some 0\<close>: already cancelled when \<open>run\<close> is called).
\<close>

definition run :: "time option \<Rightarrow> int \<Rightarrow> int \<Rightarrow> env \<Rightarrow> cycle" where
  "run ctx runD grace e =
     (case NewTicker 0 runD of
        None \<Rightarrow> \<lparr>outcome = Panicked, finished = 0, events = []\<rparr>
      | Some runT \<Rightarrow>
          (case start_err e of
             Some err \<Rightarrow> \<lparr>outcome = Returned (Some err), finished = 0, events = []\<rparr>
           | None \<Rightarrow>
               (let ex = own_exit (proc e)
                in case select (pick_run e) 0 (ctx_case ctx @ done_case ex @ [(runT, Tick)]) of
                     Some (t, ChildDone err) \<Rightarrow>
                       \<lparr>outcome = Returned err, finished = t, events = [(0, Start)]\<rparr>
                   | Some (t, _) \<Rightarrow> terminate t grace e ex [(0, Start)]
                   | None \<Rightarrow> \<lparr>outcome = Blocked, finished = 0, events = [(0, Start)]\<rparr>)))"

text \<open>The signals sent in a cycle, in order, and the instants of one signal.\<close>

definition signals_sent :: "(time \<times> event) list \<Rightarrow> signal list" where
  "signals_sent evs = concat (map (\<lambda>(t, ev). case ev of Signal s \<Rightarrow> [s] | _ \<Rightarrow> []) evs)"

definition sent_at :: "signal \<Rightarrow> (time \<times> event) list \<Rightarrow> time list" where
  "sent_at s evs = map fst (filter (\<lambda>(t, ev). ev = Signal s) evs)"

section \<open>The function \<open>main\<close> (lines 157 to 193)\<close>

text \<open>
  How the supervisor process stands: it called \<open>os.Exit\<close> with a status (\<open>log.Fatal\<close>
  exits with 1, the usage check with 2), a goroutine panicked (the runtime ends the process
  with status 2), the main goroutine is blocked forever, or the loop is still going round
  after the cycles that were given.
\<close>

datatype status = Exit nat | Crash | Hung | Looping

record process =
  status :: status
  ended :: time
  log :: "(time \<times> event) list"

text \<open>
  The context of \<open>main\<close> is cancelled at one instant and stays cancelled: its \<open>Done\<close>
  channel is closed from then on.
\<close>

definition cancelled :: "time option \<Rightarrow> time \<Rightarrow> bool" where
  "cancelled cancel t = (case cancel of None \<Rightarrow> False | Some c \<Rightarrow> c \<le> t)"

text \<open>
  The instant, counted from \<open>now\<close>, at which the \<open>Done\<close> channel is ready for a \<open>run\<close>
  called at \<open>now\<close>: at once when the context is already cancelled.
\<close>

definition ctx_from :: "time option \<Rightarrow> time \<Rightarrow> time option" where
  "ctx_from cancel now = map_option (\<lambda>c. c - now) cancel"

definition shift :: "time \<Rightarrow> (time \<times> event) list \<Rightarrow> (time \<times> event) list" where
  "shift now evs = map (\<lambda>(t, ev). (now + t, ev)) evs"

text \<open>
  Lines 188 to 192, \<open>for { if err := run(...); err != nil { log.Fatal(err) } }\<close>, over the
  environments of the successive cycles. The loop has no exit of its own; the list bounds
  how many cycles are followed.
\<close>

fun loop :: "time option \<Rightarrow> int \<Rightarrow> int \<Rightarrow> time \<Rightarrow> env list \<Rightarrow> process" where
  "loop cancel runF graceF now [] = \<lparr>status = Looping, ended = now, log = []\<rparr>"
| "loop cancel runF graceF now (e # es) =
     (let c = run (ctx_from cancel now) runF graceF e;
          evs = shift now (events c);
          t = now + finished c
      in case outcome c of
           Returned None \<Rightarrow>
             (let p = loop cancel runF graceF t es in p\<lparr>log := evs @ log p\<rparr>)
         | Returned (Some err) \<Rightarrow>
             \<lparr>status = Exit 1, ended = t, log = evs @ [(t, LogFatal err)]\<rparr>
         | Panicked \<Rightarrow> \<lparr>status = Crash, ended = t, log = evs\<rparr>
         | Blocked \<Rightarrow> \<lparr>status = Hung, ended = t, log = evs\<rparr>)"

subsection \<open>The signal relay (lines 177 to 186)\<close>






section \<open>The earlier version of \<open>run\<close> (lines 15 to 46)\<close>

text \<open>
  The sum of two values of \<open>time.Duration\<close>, which is \<open>int64\<close>: it wraps around.
\<close>

definition add64 :: "int \<Rightarrow> int \<Rightarrow> int" where
  "add64 a b = (a + b + 2 ^ 63) mod 2 ^ 64 - 2 ^ 63"

text \<open>
  \<open>context.WithTimeout(parent, d)\<close>: the new context is done when the parent is cancelled or
  the timeout has passed, whichever is first (at once for a timeout that is not positive).
\<close>

definition WithTimeout :: "time option \<Rightarrow> int \<Rightarrow> time option" where
  "WithTimeout parent d = (case parent of None \<Rightarrow> Some (nat d) | Some c \<Rightarrow> Some (min c (nat d)))"

text \<open>
  Line 81, \<open>ctx, cancel := context.WithTimeout(mainCtx, *runF+*graceF)\<close>: the context that
  the earlier \<open>main\<close> passes to \<open>run\<close>.
\<close>

definition cycle_ctx :: "time option \<Rightarrow> int \<Rightarrow> int \<Rightarrow> time option" where
  "cycle_ctx mainCtx runF graceF = WithTimeout mainCtx (add64 runF graceF)"

text \<open>
  \<open>exec.CommandContext\<close> (line 20): a goroutine of package \<open>os/exec\<close> waits for the context
  and for the end of \<open>cmd.Wait\<close>, and calls \<open>Process.Kill\<close>, which sends SIGKILL, when the
  context is done first. The watch is entered at \<open>now\<close> with the exit \<open>ex\<close> scheduled; the
  result is what was sent, whether \<open>Kill\<close> succeeded, and the exit then scheduled. The
  number \<open>r\<close> is the runtime's random choice when the exit and the context are ready at
  the same instant.
\<close>

definition watch_ctx ::
  "nat \<Rightarrow> time \<Rightarrow> time option \<Rightarrow> env \<Rightarrow> (time \<times> process_state) option
     \<Rightarrow> (time \<times> event) list \<times> bool \<times> (time \<times> process_state) option" where
  "watch_ctx r now ctx e ex =
     (case ctx of
        None \<Rightarrow> ([], False, ex)
      | Some k \<Rightarrow>
          (case select r now (done_case ex @ [(k, CtxDone)]) of
             Some (t, CtxDone) \<Rightarrow>
               (let (ok, ex') = deliver t ex (on_kill (proc e))
                in ([(t, Signal SIGKILL)], ok, ex'))
           | _ \<Rightarrow> ([], False, ex)))"

text \<open>
  \<open>cmd.Wait\<close> of a command made by \<open>exec.CommandContext\<close>: when \<open>Kill\<close> succeeded and the
  child nevertheless ended with status zero, it returns the context's error; otherwise it
  returns what it returns for the child's state.
\<close>

definition wait_ctx :: "bool \<Rightarrow> error option \<Rightarrow> error option" where
  "wait_ctx killed err = (if killed \<and> err = None then Some CtxError else err)"

text \<open>
  Lines 15 to 46. \<open>cmd.Start\<close> returns the error of the \<open>$PATH\<close> lookup first; then the
  context's error when the context is already done; then it starts the process, which can
  fail. There is one \<open>select\<close>, over the child's exit and the ticker, and after SIGTERM the
  function waits for the exit alone; the SIGKILL comes from the watch above, before the
  ticker when the context is done before it and after the SIGTERM otherwise. The context
  \<open>ctx\<close> is the one \<open>main\<close> makes at line 81; the second random number of the environment
  is the one of the watch.
\<close>

definition run_earlier :: "time option \<Rightarrow> int \<Rightarrow> env \<Rightarrow> cycle" where
  "run_earlier ctx runD e =
     (case NewTicker 0 runD of
        None \<Rightarrow> \<lparr>outcome = Panicked, finished = 0, events = []\<rparr>
      | Some t \<Rightarrow>
          (case start_err e of
             Some (LookPathError m) \<Rightarrow>
               \<lparr>outcome = Returned (Some (LookPathError m)), finished = 0, events = []\<rparr>
           | Some err \<Rightarrow>
               if ctx = Some 0
               then \<lparr>outcome = Returned (Some CtxError), finished = 0, events = []\<rparr>
               else \<lparr>outcome = Returned (Some err), finished = 0, events = []\<rparr>
           | None \<Rightarrow>
               if ctx = Some 0
               then \<lparr>outcome = Returned (Some CtxError), finished = 0, events = []\<rparr>
               else
               (let early = (case ctx of None \<Rightarrow> False | Some k \<Rightarrow> k < t);
                    (kev, killed, ex) =
                      (if early then watch_ctx (pick_grace e) 0 ctx e (own_exit (proc e))
                       else ([], False, own_exit (proc e)))
                in case select (pick_run e) 0 (done_case ex @ [(t, Tick)]) of
                     Some (t1, ChildDone err) \<Rightarrow>
                       \<lparr>outcome = Returned (wait_ctx killed err), finished = t1,
                        events = (0, Start) # kev\<rparr>
                   | Some (t1, _) \<Rightarrow>
                       (let (ok, ex') = deliver t1 ex (on_term (proc e));
                            evs = (0, Start) # kev @ send t1 SIGTERM ok;
                            (kev', killed', ex'') =
                              (if early then ([], killed, ex')
                               else watch_ctx (pick_grace e) t1 ctx e ex')
                        in case select 0 t1 (done_case ex'') of
                             Some (t2, ChildDone err) \<Rightarrow>
                               \<lparr>outcome = Returned (wait_ctx killed' err), finished = t2,
                                events = evs @ kev'\<rparr>
                           | _ \<Rightarrow> \<lparr>outcome = Blocked, finished = t1, events = evs @ kev'\<rparr>)
                   | None \<Rightarrow> \<lparr>outcome = Blocked, finished = 0, events = (0, Start) # kev\<rparr>)))"

section \<open>Notions used to state the properties\<close>

text \<open>
  The instant at which the wait of lines 124 to 131 ends when the child has not exited by
  then: the earlier of the context's cancellation and the first tick of the run ticker.
\<close>

definition term_at :: "time option \<Rightarrow> int \<Rightarrow> time" where
  "term_at ctx runD = (case ctx of None \<Rightarrow> nat runD | Some c \<Rightarrow> min c (nat runD))"

text \<open>
  In the events of a cycle: \<open>Signal\<close> was called with SIGKILL and did not fail, so that the
  signal was delivered.
\<close>

definition kill_delivered :: "(time \<times> event) list \<Rightarrow> bool" where
  "kill_delivered evs =
     (SIGKILL \<in> set (signals_sent evs) \<and> LogFailed SIGKILL \<notin> set (map snd evs))"

text \<open>The ticker's case renamed to the context's case, to compare two \<open>select\<close> statements.\<close>

definition relabel :: "branch \<Rightarrow> branch" where
  "relabel b = (if b = Tick then CtxDone else b)"


text \<open>
  Children for the examples: one that neither exits by itself nor reacts to SIGTERM and dies
  of SIGKILL at once; one that SIGKILL does not end either; one that exits with status zero
  one unit after SIGTERM; one that SIGTERM ends, as it does a program that does not handle
  it; one that exits by itself at the given instant with the given state.
\<close>

definition stubborn :: child where
  "stubborn = \<lparr>own_exit = None, on_term = None, on_kill = Some (0, Signaled SIGKILL)\<rparr>"



text \<open>
  A child that ignores SIGTERM and that SIGKILL reaches while it is already exiting with
  status zero: the signal is delivered, and the state collected is that exit.
\<close>

definition exiting :: child where
  "exiting = \<lparr>own_exit = None, on_term = None, on_kill = Some (0, Exited 0)\<rparr>"

definition polite :: child where
  "polite = \<lparr>own_exit = None, on_term = Some (1, Exited 0), on_kill = Some (0, Signaled SIGKILL)\<rparr>"

definition exits :: "time \<Rightarrow> process_state \<Rightarrow> child" where
  "exits d s = \<lparr>own_exit = Some (d, s), on_term = None, on_kill = Some (0, Signaled SIGKILL)\<rparr>"

text \<open>
  An environment in which the child starts, with the two random numbers, and one in which
  \<open>cmd.Start\<close> fails.
\<close>

definition started :: "child \<Rightarrow> nat \<Rightarrow> nat \<Rightarrow> env" where
  "started c r1 r2 = \<lparr>start_err = None, proc = c, pick_run = r1, pick_grace = r2\<rparr>"

definition missing :: env where
  "missing = \<lparr>start_err = Some (LookPathError ''executable file not found in $PATH''),
     proc = stubborn, pick_run = 0, pick_grace = 0\<rparr>"

section \<open>Lemmas on \<open>select\<close> and on the phases of \<open>run\<close>\<close>

lemmas run_defs = run_def terminate_def kill_def NewTicker_def select_def ctx_case_def
  done_case_def earliest_def deliver_def finished_by_def first_exit_def send_def wait_err_def
  started_def stubborn_def exits_def

lemmas earlier_defs = run_earlier_def watch_ctx_def wait_ctx_def WithTimeout_def cycle_ctx_def
  add64_def polite_def

lemma earliest_Min: "ts \<noteq> [] \<Longrightarrow> earliest ts = Min (set ts)"
  unfolding earliest_def by (cases ts) (simp_all add: Min.set_eq_fold [symmetric])

lemma select_None: "select r now cs = None \<longleftrightarrow> cs = []"
  by (simp add: select_def Let_def)

lemma ready_nonempty:
  assumes "cs \<noteq> []"
  shows "filter (\<lambda>(t, b). t = earliest (map fst cs)) cs \<noteq> []"
proof -
  have ne: "map fst cs \<noteq> []" using assms by simp
  have "earliest (map fst cs) \<in> set (map fst cs)"
    unfolding earliest_Min [OF ne] using ne by (intro Min_in) auto
  then show ?thesis by (auto simp: filter_empty_conv)
qed

lemma select_Some:
  assumes "select r now cs = Some (t, b)"
  shows "\<exists>t'. (t', b) \<in> set cs \<and> t = max now t'"
    and "\<forall>(t', b') \<in> set cs. t \<le> max now t'"
proof -
  from assms have ne: "cs \<noteq> []" by (auto simp: select_def split: if_splits)
  define at where "at = map (\<lambda>(t, b). (max now t, b)) cs"
  define t0 where "t0 = earliest (map fst at)"
  define ready where "ready = filter (\<lambda>(t, b). t = t0) at"
  have atne: "map fst at \<noteq> []" using ne by (simp add: at_def)
  have t0: "t0 = Min (set (map fst at))" unfolding t0_def by (rule earliest_Min [OF atne])
  have "t0 \<in> set (map fst at)" unfolding t0 using atne by (intro Min_in) auto
  then have rne: "ready \<noteq> []" by (auto simp: ready_def filter_empty_conv)
  have sel: "select r now cs = Some (ready ! (r mod length ready))"
    using ne by (simp add: select_def Let_def at_def t0_def ready_def)
  have "ready ! (r mod length ready) \<in> set ready" using rne by simp
  with sel assms have mem: "(t, b) \<in> set ready" by simp
  then have tt: "t = t0" and inat: "(t, b) \<in> set at" by (auto simp: ready_def)
  from inat show "\<exists>t'. (t', b) \<in> set cs \<and> t = max now t'" by (auto simp: at_def)
  have "\<forall>x \<in> set (map fst at). t0 \<le> x" unfolding t0 by (auto intro: Min_le)
  then show "\<forall>(t', b') \<in> set cs. t \<le> max now t'" unfolding tt by (auto simp: at_def)
qed

lemma select_running:
  assumes "select r 0 (ctx_case ctx @ done_case ex @ [(T, Tick)]) = Some (t, b)"
  shows "(b = CtxDone \<and> ctx = Some t) \<or> (\<exists>s. b = ChildDone (wait_err s) \<and> ex = Some (t, s))
           \<or> (b = Tick \<and> t = T)"
    and "t \<le> T" and "\<forall>c. ctx = Some c \<longrightarrow> t \<le> c" and "\<forall>d s. ex = Some (d, s) \<longrightarrow> t \<le> d"
  using select_Some [OF assms]
  by (auto simp: ctx_case_def done_case_def split: option.splits)

lemma select_running_ex: "\<exists>t b. select r 0 (ctx_case ctx @ done_case ex @ [(T, Tick)]) = Some (t, b)"
  by (cases "select r 0 (ctx_case ctx @ done_case ex @ [(T, Tick)])") (auto simp: select_None)

lemma select_grace:
  assumes "select r now (done_case ex @ [(G, Tick)]) = Some (t, b)" and "now \<le> G"
  shows "(\<exists>d s. b = ChildDone (wait_err s) \<and> ex = Some (d, s) \<and> t = max now d) \<or> (b = Tick \<and> t = G)"
    and "t \<le> G" and "now \<le> t" and "\<forall>d s. ex = Some (d, s) \<longrightarrow> t \<le> max now d"
  using select_Some [OF assms(1)] assms(2)
  by (auto simp: done_case_def split: option.splits)

lemma select_grace_ex: "\<exists>t b. select r now (done_case ex @ [(G, Tick)]) = Some (t, b)"
  by (cases "select r now (done_case ex @ [(G, Tick)])") (auto simp: select_None)

lemma select_done:
  "select r now (done_case ex) =
     (case ex of None \<Rightarrow> None | Some (d, s) \<Rightarrow> Some (max now d, ChildDone (wait_err s)))"
  by (simp add: select_def done_case_def earliest_def split: option.splits)

lemma select_drop_late:
  assumes mem: "(t, b) \<in> set cs" and late: "max now t < max now c"
  shows "select r now ((c, b') # cs) = select r now cs"
proof -
  define at where "at = map (\<lambda>(t, b). (max now t, b)) cs"
  have ne: "cs \<noteq> []" using mem by auto
  have atne: "map fst at \<noteq> []" using ne by (simp add: at_def)
  have "max now t \<in> set (map fst at)" using mem by (force simp: at_def)
  then have le: "Min (set (map fst at)) \<le> max now t" by (intro Min_le) auto
  from le late have lt: "Min (set (map fst at)) < max now c" by (rule le_less_trans)
  have e1: "earliest (map fst at) = Min (set (map fst at))" by (rule earliest_Min [OF atne])
  have e2: "earliest (max now c # map fst at) = Min (set (max now c # map fst at))"
    by (rule earliest_Min) simp
  have "Min (set (max now c # map fst at)) = min (max now c) (Min (set (map fst at)))"
    using atne by (simp add: Min_insert)
  also have "\<dots> = Min (set (map fst at))" using lt by (simp only: min_absorb2 less_imp_le)
  finally have e3: "earliest (max now c # map fst at) = earliest (map fst at)"
    using e1 e2 by simp
  have neq: "max now c \<noteq> earliest (map fst at)" using lt unfolding e1 by (rule less_imp_neq [symmetric])
  show ?thesis
    using ne e3 neq by (simp add: select_def Let_def at_def [symmetric])
qed

lemma select_tie2:
  "select r now [(t, a), (t, b)] = Some (max now t, if even r then a else b)"
proof -
  have "[x, y] ! (r mod Suc (Suc 0)) = (if even r then x else y)" for x y :: "time \<times> branch"
  proof -
    have "r mod Suc (Suc 0) = (if even r then 0 else Suc 0)"
      unfolding numeral_2_eq_2 [symmetric] by (simp add: even_iff_mod_2_eq_zero odd_iff_mod_2_eq_one)
    then show ?thesis by simp
  qed
  then show ?thesis by (simp add: select_def earliest_def)
qed

lemma select_relabel:
  "select r now (map (\<lambda>(t, b). (t, g b)) cs) = map_option (\<lambda>(t, b). (t, g b)) (select r now cs)"
proof (cases "cs = []")
  case True
  then show ?thesis by (simp add: select_def)
next
  case False
  define at where "at = map (\<lambda>(t, b). (max now t, b)) cs"
  define ready where "ready = filter (\<lambda>(t, b). t = earliest (map fst at)) at"
  have atne: "at \<noteq> []" using False by (simp add: at_def)
  have rne: "ready \<noteq> []" unfolding ready_def by (rule ready_nonempty [OF atne])
  have at': "map (\<lambda>(t, b). (max now t, b)) (map (\<lambda>(t, b). (t, g b)) cs) = map (\<lambda>(t, b). (t, g b)) at"
    by (simp add: at_def case_prod_unfold)
  have fst': "map fst (map (\<lambda>(t, b). (t, g b)) at) = map fst at"
    by (simp add: case_prod_unfold)
  have ready': "filter (\<lambda>(t, b). t = earliest (map fst at)) (map (\<lambda>(t, b). (t, g b)) at)
      = map (\<lambda>(t, b). (t, g b)) ready"
    by (simp add: ready_def filter_map comp_def case_prod_unfold)
  have idx: "r mod length ready < length ready" using rne by simp
  have l: "select r now (map (\<lambda>(t, b). (t, g b)) cs)
      = Some (map (\<lambda>(t, b). (t, g b)) ready ! (r mod length ready))"
    using False unfolding select_def Let_def at' fst' ready' by simp
  have r: "select r now cs = Some (ready ! (r mod length ready))"
    using False by (simp add: select_def Let_def at_def ready_def)
  show ?thesis unfolding l r using idx by (simp add: nth_map)
qed

lemma select_watch:
  "select r now (done_case ex @ [(k, CtxDone)])
     = map_option (\<lambda>(t, b). (t, relabel b)) (select r now (done_case ex @ [(k, Tick)]))"
proof -
  have "done_case ex @ [(k, CtxDone)] = map (\<lambda>(t, b). (t, relabel b)) (done_case ex @ [(k, Tick)])"
    by (simp add: done_case_def relabel_def split: option.splits)
  then show ?thesis by (simp only: select_relabel)
qed

lemma first_exit_None [simp]: "first_exit a None = a"
  by (simp add: first_exit_def split: option.splits)

lemma kill_eq:
  "kill now e ex evs =
     (let (ok, ex') = deliver now ex (on_kill (proc e)) in
      case ex' of None \<Rightarrow> \<lparr>outcome = Blocked, finished = now, events = evs @ send now SIGKILL ok\<rparr>
      | Some (d, s) \<Rightarrow> \<lparr>outcome = Returned (wait_err s), finished = max now d, events = evs @ send now SIGKILL ok\<rparr>)"
  by (simp add: kill_def select_done split: option.splits prod.splits)

lemma signals_sent_Nil [simp]: "signals_sent [] = []"
  by (simp add: signals_sent_def)

lemma sent_at_Nil [simp]: "sent_at s [] = []"
  by (simp add: sent_at_def)

lemma signals_sent_append [simp]: "signals_sent (xs @ ys) = signals_sent xs @ signals_sent ys"
  by (simp add: signals_sent_def)

lemma signals_sent_send [simp]: "signals_sent (send now sig ok) = [sig]"
  by (simp add: signals_sent_def send_def)

lemma signals_sent_Start [simp]: "signals_sent [(t, Start)] = []"
  by (simp add: signals_sent_def)

lemma signals_sent_Cons_Start [simp]: "signals_sent ((t, Start) # evs) = signals_sent evs"
  by (simp add: signals_sent_def)

lemma sent_at_append [simp]: "sent_at s (xs @ ys) = sent_at s xs @ sent_at s ys"
  by (simp add: sent_at_def)

lemma sent_at_send: "sent_at s (send now sig ok) = (if s = sig then [now] else [])"
  by (auto simp: sent_at_def send_def)

lemma sent_at_Start [simp]: "sent_at s [(t, Start)] = []"
  by (simp add: sent_at_def)

lemma sent_at_Cons_Start [simp]: "sent_at s ((t, Start) # evs) = sent_at s evs"
  by (simp add: sent_at_def)

lemma run_unfold:
  assumes "0 < runD" and "start_err e = None"
    and "select (pick_run e) 0 (ctx_case ctx @ done_case (own_exit (proc e)) @ [(nat runD, Tick)]) = Some (t, b)"
  shows "run ctx runD grace e =
     (case b of ChildDone err \<Rightarrow> \<lparr>outcome = Returned err, finished = t, events = [(0, Start)]\<rparr>
      | _ \<Rightarrow> terminate t grace e (own_exit (proc e)) [(0, Start)])"
  using assms by (simp add: run_def NewTicker_def split: branch.splits)

lemma terminate_unfold:
  assumes "0 < grace" and "deliver now ex (on_term (proc e)) = (ok, ex')"
    and "select (pick_grace e) now (done_case ex' @ [(now + nat grace, Tick)]) = Some (t, b)"
  shows "terminate now grace e ex evs =
     (case b of ChildDone err \<Rightarrow> \<lparr>outcome = Returned err, finished = t, events = evs @ send now SIGTERM ok\<rparr>
      | _ \<Rightarrow> kill t e ex' (evs @ send now SIGTERM ok))"
  using assms by (simp add: terminate_def NewTicker_def split: branch.splits)

lemma running_not_done:
  assumes sel: "select r 0 (ctx_case ctx @ done_case ex @ [(nat runD, Tick)]) = Some (t, b)"
    and alive: "\<forall>d s. ex = Some (d, s) \<longrightarrow> term_at ctx runD < d"
  shows "t = term_at ctx runD" and "b = CtxDone \<or> b = Tick"
proof -
  note r = select_running [OF sel]
  have le: "t \<le> term_at ctx runD" using r(2,3) by (auto simp: term_at_def split: option.splits)
  from r(1) show b: "b = CtxDone \<or> b = Tick" using alive le by auto
  from b r(1) r(3) r(2) show "t = term_at ctx runD"
    by (auto simp: term_at_def split: option.splits)
qed

lemma terminate_panics:
  "grace \<le> 0 \<Longrightarrow> terminate now grace e ex evs =
      \<lparr>outcome = Panicked, finished = now,
       events = evs @ send now SIGTERM (\<not> finished_by now ex)\<rparr>"
  by (simp add: terminate_def NewTicker_def deliver_def split: prod.splits)

lemma kill_events: "events (kill now e ex evs) = evs @ send now SIGKILL (\<not> finished_by now ex)"
  by (auto simp: kill_eq deliver_def split: option.splits prod.splits)

lemma terminate_events:
  "events (terminate now grace e ex evs) = evs @ send now SIGTERM (\<not> finished_by now ex)
   \<or> (0 < grace \<and> (\<exists>ok. events (terminate now grace e ex evs) =
         evs @ send now SIGTERM (\<not> finished_by now ex) @ send (now + nat grace) SIGKILL ok))"
proof (cases "0 < grace")
  case False
  then show ?thesis by (simp add: terminate_panics)
next
  case True
  obtain ok ex' where d: "deliver now ex (on_term (proc e)) = (ok, ex')" by (cases "deliver now ex (on_term (proc e))")
  then have ok: "ok = (\<not> finished_by now ex)" by (auto simp: deliver_def split: if_splits)
  obtain t b where sel: "select (pick_grace e) now (done_case ex' @ [(now + nat grace, Tick)]) = Some (t, b)"
    using select_grace_ex by blast
  have g: "b = Tick \<longrightarrow> t = now + nat grace" "b \<noteq> CtxDone" using select_grace(1) [OF sel] by auto
  show ?thesis
    using terminate_unfold [OF True d sel, of evs] g True ok
    by (cases b) (auto simp: kill_events)
qed

lemma terminate_sent:
  "sent_at SIGTERM (events (terminate now grace e ex evs)) = sent_at SIGTERM evs @ [now]"
  "set (sent_at SIGKILL (events (terminate now grace e ex evs))) \<subseteq> set (sent_at SIGKILL evs) \<union> {now + nat grace}"
  using terminate_events [of now grace e ex evs] by (auto simp: sent_at_send)

lemma run_panics_first: "runD \<le> 0 \<Longrightarrow> run ctx runD grace e = \<lparr>outcome = Panicked, finished = 0, events = []\<rparr>"
  by (simp add: run_def NewTicker_def)

lemma run_reaches_terminate:
  assumes "0 < runD" and "start_err e = None"
  shows "run ctx runD grace e = terminate (term_at ctx runD) grace e (own_exit (proc e)) [(0, Start)]
       \<or> (\<exists>d s. own_exit (proc e) = Some (d, s) \<and> d \<le> term_at ctx runD
            \<and> run ctx runD grace e = \<lparr>outcome = Returned (wait_err s), finished = d, events = [(0, Start)]\<rparr>)"
proof -
  obtain t b where sel: "select (pick_run e) 0
      (ctx_case ctx @ done_case (own_exit (proc e)) @ [(nat runD, Tick)]) = Some (t, b)"
    using select_running_ex by blast
  note r = select_running [OF sel]
  have le: "t \<le> term_at ctx runD" using r(2,3) by (auto simp: term_at_def split: option.splits)
  from r(1) consider "b = CtxDone \<or> b = Tick" | s where "b = ChildDone (wait_err s)" "own_exit (proc e) = Some (t, s)"
    by blast
  then show ?thesis
  proof cases
    case 1
    with r have "t = term_at ctx runD" by (auto simp: term_at_def split: option.splits)
    with 1 show ?thesis using run_unfold [OF assms sel, of grace] by auto
  next
    case 2
    then show ?thesis using run_unfold [OF assms sel, of grace] le by auto
  qed
qed

lemma running_cancelled:
  assumes "0 < runD" and "start_err e = None" and "c \<le> nat runD"
    and "\<forall>d s. own_exit (proc e) = Some (d, s) \<longrightarrow> c \<le> d"
  shows "run (Some c) runD grace e = terminate c grace e (own_exit (proc e)) [(0, Start)]
       \<or> (\<exists>s. own_exit (proc e) = Some (c, s)
            \<and> run (Some c) runD grace e = \<lparr>outcome = Returned (wait_err s), finished = c, events = [(0, Start)]\<rparr>)"
proof -
  obtain t b where sel: "select (pick_run e) 0
      (ctx_case (Some c) @ done_case (own_exit (proc e)) @ [(nat runD, Tick)]) = Some (t, b)"
    using select_running_ex by blast
  note r = select_running [OF sel]
  have t: "t = c" using r assms(3,4) by auto
  show ?thesis using run_unfold [OF assms(1,2) sel, of grace] r(1) t by auto
qed

lemma run_late_cancel:
  assumes "nat runD < c'"
  shows "run (Some c') runD grace e = run None runD grace e"
proof -
  have "select r 0 (ctx_case (Some c') @ done_case ex @ [(nat runD, Tick)])
      = select r 0 (ctx_case None @ done_case ex @ [(nat runD, Tick)])" for r ex
    using select_drop_late [of "nat runD" Tick "done_case ex @ [(nat runD, Tick)]" 0 c' r CtxDone] assms
    by (simp add: ctx_case_def)
  then show ?thesis
    by (cases "start_err e") (simp_all add: run_def NewTicker_def)
qed

lemma terminate_alive:
  assumes "0 < grace"
    and "\<forall>d s. first_exit ex (map_option (\<lambda>(d, s). (now + d, s)) (on_term (proc e))) = Some (d, s) \<longrightarrow> now + nat grace < d"
  shows "events (terminate now grace e ex evs) = evs @ [(now, Signal SIGTERM), (now + nat grace, Signal SIGKILL)]"
proof -
  define ex' where "ex' = first_exit ex (map_option (\<lambda>(d, s). (now + d, s)) (on_term (proc e)))"
  have late: "\<forall>d s. ex' = Some (d, s) \<longrightarrow> now + nat grace < d" using assms(2) by (simp add: ex'_def)
  have "\<forall>d s. ex = Some (d, s) \<longrightarrow> now + nat grace < d"
    using late unfolding ex'_def by (auto simp: first_exit_def split: option.splits if_splits)
  then have nf: "\<not> finished_by now ex" by (auto simp: finished_by_def split: option.splits)
  have d: "deliver now ex (on_term (proc e)) = (True, ex')" using nf by (simp add: deliver_def ex'_def)
  obtain t b where sel: "select (pick_grace e) now (done_case ex' @ [(now + nat grace, Tick)]) = Some (t, b)"
    using select_grace_ex by blast
  note g = select_grace [OF sel]
  have b: "b = Tick" and t: "t = now + nat grace" using g late by auto
  have nf2: "\<not> finished_by (now + nat grace) ex'" using late by (auto simp: finished_by_def split: option.splits)
  show ?thesis using terminate_unfold [OF assms(1) d sel, of evs] b t nf2
    by (simp add: kill_events send_def)
qed

lemma run_own_exit_first:
  assumes "start_err e = None" and "own_exit (proc e) = Some (d, s)" and "int d < runD"
    and "\<forall>c. ctx = Some c \<longrightarrow> d < c"
  shows "run ctx runD grace e = \<lparr>outcome = Returned (wait_err s), finished = d, events = [(0, Start)]\<rparr>"
proof -
  from assms(3) have pos: "0 < runD" by linarith
  obtain t b where sel: "select (pick_run e) 0
      (ctx_case ctx @ done_case (own_exit (proc e)) @ [(nat runD, Tick)]) = Some (t, b)"
    using select_running_ex by blast
  note r = select_running [OF sel]
  from r(4) assms(2) have "t \<le> d" by simp
  with r(1) assms have b: "b = ChildDone (wait_err s)" and t: "t = d" by auto
  show ?thesis using run_unfold [OF pos assms(1) sel, of grace] by (simp add: b t)
qed

lemma select_exit_tick_tie:
  assumes "\<forall>c. ctx = Some c \<longrightarrow> T < c"
  shows "select r 0 (ctx_case ctx @ done_case (Some (T, s)) @ [(T, Tick)])
       = Some (T, if even r then ChildDone (wait_err s) else Tick)"
proof (cases ctx)
  case None
  then show ?thesis by (simp add: ctx_case_def done_case_def select_tie2)
next
  case (Some c)
  with assms have "T < c" by simp
  then have "select r 0 ((c, CtxDone) # [(T, ChildDone (wait_err s)), (T, Tick)])
      = select r 0 [(T, ChildDone (wait_err s)), (T, Tick)]"
    by (intro select_drop_late [of T Tick]) simp_all
  then show ?thesis using Some by (simp add: ctx_case_def done_case_def select_tie2)
qed

lemma terminate_already_gone:
  assumes "0 < grace" and "d \<le> now"
  shows "terminate now grace e (Some (d, s)) evs =
     \<lparr>outcome = Returned (wait_err s), finished = now,
      events = evs @ [(now, Signal SIGTERM), (now, LogFailed SIGTERM)]\<rparr>"
proof -
  have dl: "deliver now (Some (d, s)) (on_term (proc e)) = (False, Some (d, s))"
    using assms(2) by (simp add: deliver_def finished_by_def)
  obtain t b where sel: "select (pick_grace e) now (done_case (Some (d, s)) @ [(now + nat grace, Tick)]) = Some (t, b)"
    using select_grace_ex by blast
  note g = select_grace [OF sel]
  have "t \<le> now" using g(4) assms(2) by simp
  with g(1) assms have b: "b = ChildDone (wait_err s)" and t: "t = now" by auto
  show ?thesis using terminate_unfold [OF assms(1) dl sel, of evs] b t by (simp add: send_def)
qed

lemma cancelled_ctx_from: "cancelled cancel now \<Longrightarrow> ctx_from cancel now = Some 0"
  by (auto simp: cancelled_def ctx_from_def split: option.splits)

lemma loop_step:
  assumes "run (ctx_from cancel now) runF graceF e = \<lparr>outcome = Returned r, finished = d, events = evs\<rparr>"
  shows "loop cancel runF graceF now (e # es) =
     (case r of
        None \<Rightarrow> (let p = loop cancel runF graceF (now + d) es in p\<lparr>log := shift now evs @ log p\<rparr>)
      | Some err \<Rightarrow> \<lparr>status = Exit 1, ended = now + d, log = shift now evs @ [(now + d, LogFatal err)]\<rparr>)"
  using assms by (simp add: Let_def split: option.splits)





lemma add64_no_wrap:
  assumes "0 < a" and "0 < b" and "a + b < 2 ^ 63"
  shows "add64 a b = a + b"
proof -
  have "(a + b + 2 ^ 63) mod 2 ^ 64 = a + b + 2 ^ 63"
    using assms by (intro mod_pos_pos_trivial) simp_all
  then show ?thesis by (simp add: add64_def)
qed

lemma run_earlier_unfold:
  assumes "0 < runD" and "start_err e = None" and "nat runD \<le> k" and "0 < k"
    and "select (pick_run e) 0 (done_case (own_exit (proc e)) @ [(nat runD, Tick)]) = Some (t1, b)"
  shows "run_earlier (Some k) runD e =
     (case b of
        ChildDone err \<Rightarrow> \<lparr>outcome = Returned err, finished = t1, events = [(0, Start)]\<rparr>
      | _ \<Rightarrow>
         (let (ok, ex') = deliver t1 (own_exit (proc e)) (on_term (proc e));
              evs = (0, Start) # send t1 SIGTERM ok;
              (kev', killed', ex'') = watch_ctx (pick_grace e) t1 (Some k) e ex'
          in case select 0 t1 (done_case ex'') of
               Some (t2, ChildDone err) \<Rightarrow>
                 \<lparr>outcome = Returned (wait_ctx killed' err), finished = t2, events = evs @ kev'\<rparr>
             | _ \<Rightarrow> \<lparr>outcome = Blocked, finished = t1, events = evs @ kev'\<rparr>))"
  using assms by (simp add: run_earlier_def NewTicker_def wait_ctx_def split: branch.splits)

lemma kill_delivered_no_kill [simp]:
  "\<not> kill_delivered [(0, Start)]" "\<not> kill_delivered ((0, Start) # send t SIGTERM ok)"
  by (simp_all add: kill_delivered_def signals_sent_def send_def)

lemma kill_delivered_kill [simp]:
  "kill_delivered ((0, Start) # send t SIGTERM ok @ send k SIGKILL ok2) = ok2"
  by (auto simp: kill_delivered_def signals_sent_def send_def)

section \<open>One cycle\<close>

text \<open>
  C4. When the child exits by itself before the first tick of the run ticker and before any
  cancellation of the context, \<open>run\<close> returns what \<open>cmd.Wait\<close> returns for the child's own
  exit state, at the instant of that exit, and it sends neither SIGTERM nor SIGKILL.
\<close>

theorem own_exit_before_timer:
  assumes "start_err e = None" and "own_exit (proc e) = Some (d, s)" and "int d < runD"
    and "\<forall>c. ctx = Some c \<longrightarrow> d < c"
  shows "outcome (run ctx runD grace e) = Returned (wait_err s)
       \<and> finished (run ctx runD grace e) = d
       \<and> signals_sent (events (run ctx runD grace e)) = []"
  by (simp add: run_own_exit_first [OF assms] signals_sent_def)

text \<open>
  The theorem at a child that exits with status 3 after 5 units, with a run period of 60
  and a context cancelled at 7.
\<close>

theorem own_exit_before_timer_witness:
  "start_err (started (exits 5 (Exited 3)) 0 0) = None
   \<and> own_exit (proc (started (exits 5 (Exited 3)) 0 0)) = Some (5, Exited 3)
   \<and> int 5 < 60 \<and> (5::nat) < 7
   \<and> outcome (run (Some 7) 60 10 (started (exits 5 (Exited 3)) 0 0)) = Returned (Some (ExitError (Exited 3)))
   \<and> finished (run (Some 7) 60 10 (started (exits 5 (Exited 3)) 0 0)) = 5
   \<and> signals_sent (events (run (Some 7) 60 10 (started (exits 5 (Exited 3)) 0 0))) = []"
  using own_exit_before_timer [where e = "started (exits 5 (Exited 3)) 0 0" and d = 5
      and s = "Exited 3" and runD = 60 and ctx = "Some 7" and grace = 10]
  by (simp add: started_def exits_def wait_err_def)

text \<open>
  C2, as amended. With positive run and grace periods, for a child that ignores SIGTERM and
  does not exit by itself until after the grace ticker has ticked, one cycle sends SIGTERM
  when the wait of the Running state ends and SIGKILL one grace period later, these two
  signals and no other; \<open>run\<close> returns at the instant of the child's exit and not before the
  SIGKILL, and it never returns when the child never exits.
\<close>

theorem term_then_kill:
  assumes "0 < runD" and "0 < grace" and "start_err e = None" and "on_term (proc e) = None"
    and alive: "\<forall>d s. own_exit (proc e) = Some (d, s) \<longrightarrow> term_at ctx runD + nat grace < d"
  shows "events (run ctx runD grace e) =
           [(0, Start), (term_at ctx runD, Signal SIGTERM), (term_at ctx runD + nat grace, Signal SIGKILL)]
         \<and> signals_sent (events (run ctx runD grace e)) = [SIGTERM, SIGKILL]
         \<and> (case first_exit (own_exit (proc e))
                    (map_option (\<lambda>(d, s). (term_at ctx runD + nat grace + d, s)) (on_kill (proc e))) of
               None \<Rightarrow> outcome (run ctx runD grace e) = Blocked
             | Some (t, s) \<Rightarrow> outcome (run ctx runD grace e) = Returned (wait_err s)
                   \<and> finished (run ctx runD grace e) = t \<and> term_at ctx runD + nat grace \<le> t)"
proof -
  define T where "T = term_at ctx runD"
  define K where "K = T + nat grace"
  define ex where "ex = own_exit (proc e)"
  have alive': "\<forall>d s. ex = Some (d, s) \<longrightarrow> K < d" using alive by (simp add: ex_def K_def T_def)
  obtain t b where sel: "select (pick_run e) 0 (ctx_case ctx @ done_case ex @ [(nat runD, Tick)]) = Some (t, b)"
    using select_running_ex by blast
  have "\<forall>d s. ex = Some (d, s) \<longrightarrow> term_at ctx runD < d" using alive' by (auto simp: K_def T_def)
  from running_not_done [OF sel this] have t: "t = T" and b: "b = CtxDone \<or> b = Tick"
    by (simp_all add: T_def)
  have r1: "run ctx runD grace e = terminate T grace e ex [(0, Start)]"
    using run_unfold [OF assms(1) assms(3) sel [unfolded ex_def], of grace] b t by (auto simp: ex_def)
  have nf: "\<not> finished_by T ex" "\<not> finished_by K ex" using alive' by (auto simp: finished_by_def K_def split: option.splits)
  have d1: "deliver T ex (on_term (proc e)) = (True, ex)"
    using nf assms(4) by (simp add: deliver_def)
  obtain t2 b2 where sel2: "select (pick_grace e) T (done_case ex @ [(T + nat grace, Tick)]) = Some (t2, b2)"
    using select_grace_ex by blast
  note g = select_grace [OF sel2]
  have t2le: "t2 \<le> K" using g(2) by (simp add: K_def)
  have b2: "b2 = Tick" and t2: "t2 = K" using g(1) t2le alive' by (auto simp: K_def)
  have r2: "terminate T grace e ex [(0, Start)] = kill K e ex ([(0, Start)] @ send T SIGTERM True)"
    using terminate_unfold [OF assms(2) d1 sel2] b2 t2 by simp
  define ex2 where "ex2 = first_exit ex (map_option (\<lambda>(d, s). (K + d, s)) (on_kill (proc e)))"
  have d2: "deliver K ex (on_kill (proc e)) = (True, ex2)"
    using nf by (simp add: deliver_def ex2_def)
  have r3: "run ctx runD grace e =
      (case ex2 of None \<Rightarrow> \<lparr>outcome = Blocked, finished = K, events = [(0, Start), (T, Signal SIGTERM), (K, Signal SIGKILL)]\<rparr>
       | Some (d, s) \<Rightarrow> \<lparr>outcome = Returned (wait_err s), finished = max K d, events = [(0, Start), (T, Signal SIGTERM), (K, Signal SIGKILL)]\<rparr>)"
    unfolding r1 r2 kill_eq d2 by (simp add: send_def split: option.splits)
  have late: "\<forall>d s. ex2 = Some (d, s) \<longrightarrow> K \<le> d"
    using alive' by (auto simp: ex2_def first_exit_def split: option.splits if_splits)
  have ev: "events (run ctx runD grace e) = [(0, Start), (T, Signal SIGTERM), (K, Signal SIGKILL)]"
    unfolding r3 by (simp split: option.splits)
  have out: "case ex2 of None \<Rightarrow> outcome (run ctx runD grace e) = Blocked
             | Some (t, s) \<Rightarrow> outcome (run ctx runD grace e) = Returned (wait_err s)
                   \<and> finished (run ctx runD grace e) = t \<and> K \<le> t"
    unfolding r3 using late by (auto split: option.splits)
  have ss: "signals_sent (events (run ctx runD grace e)) = [SIGTERM, SIGKILL]"
    unfolding ev by (simp add: signals_sent_def)
  from ev ss out show ?thesis unfolding T_def K_def ex2_def ex_def by simp
qed

text \<open>
  The theorem at the stubborn child, a run period of 60 and a grace period of 10, with the
  context cancelled at 20.
\<close>

theorem term_then_kill_witness:
  "(0::int) < 60 \<and> (0::int) < 10 \<and> start_err (started stubborn 0 0) = None
   \<and> on_term (proc (started stubborn 0 0)) = None
   \<and> own_exit (proc (started stubborn 0 0)) = None
   \<and> events (run (Some 20) 60 10 (started stubborn 0 0)) =
        [(0, Start), (20, Signal SIGTERM), (30, Signal SIGKILL)]
   \<and> outcome (run (Some 20) 60 10 (started stubborn 0 0)) = Returned (Some (ExitError (Signaled SIGKILL)))
   \<and> finished (run (Some 20) 60 10 (started stubborn 0 0)) = 30"
  using term_then_kill [where runD = 60 and grace = 10 and e = "started stubborn 0 0" and ctx = "Some 20"]
  by (simp add: started_def stubborn_def term_at_def first_exit_def wait_err_def)

text \<open>
  C2 as stated fails for a grace period of zero: the stubborn child is sent SIGTERM, then
  \<open>time.NewTicker\<close> panics, and no SIGKILL is sent.
\<close>

theorem zero_grace_no_kill:
  "signals_sent (events (run None 60 0 (started stubborn 0 0))) = [SIGTERM]
   \<and> outcome (run None 60 0 (started stubborn 0 0)) = Panicked"
  by (simp add: run_defs signals_sent_def)

text \<open>
  C3. When the context is cancelled at \<open>c\<close> while the cycle is in the Running state (the
  child was started, the run ticker has not ticked before \<open>c\<close> and the child has not exited
  before \<open>c\<close>), the wait of the Running state ends at \<open>c\<close>: SIGTERM is sent at \<open>c\<close>, unless
  the child's exit is ready at that very instant and is taken. A SIGKILL is sent at no
  other instant than one grace period after \<open>c\<close>, and it is sent then when the child is
  still alive. A cancellation that comes after the run ticker has ticked changes nothing:
  the cycle is the one of a context that is never cancelled.
\<close>

theorem cancel_in_running:
  assumes "0 < runD" and "start_err e = None" and "c \<le> nat runD"
    and "\<forall>d s. own_exit (proc e) = Some (d, s) \<longrightarrow> c \<le> d"
  shows "(sent_at SIGTERM (events (run (Some c) runD grace e)) = [c]
          \<or> (\<exists>s. own_exit (proc e) = Some (c, s)
               \<and> run (Some c) runD grace e = \<lparr>outcome = Returned (wait_err s), finished = c, events = [(0, Start)]\<rparr>))
       \<and> set (sent_at SIGKILL (events (run (Some c) runD grace e))) \<subseteq> {c + nat grace}
       \<and> (0 < grace \<and> (\<forall>d s. first_exit (own_exit (proc e))
                 (map_option (\<lambda>(d, s). (c + d, s)) (on_term (proc e))) = Some (d, s) \<longrightarrow> c + nat grace < d)
            \<longrightarrow> events (run (Some c) runD grace e) =
                  [(0, Start), (c, Signal SIGTERM), (c + nat grace, Signal SIGKILL)])
       \<and> (\<forall>c'. nat runD < c' \<longrightarrow> run (Some c') runD grace e = run None runD grace e)"
proof -
  let ?R = "run (Some c) runD grace e"
  from running_cancelled [OF assms, of grace]
  consider (signalled) "?R = terminate c grace e (own_exit (proc e)) [(0, Start)]"
    | (gone) s where "own_exit (proc e) = Some (c, s)"
        "?R = \<lparr>outcome = Returned (wait_err s), finished = c, events = [(0, Start)]\<rparr>"
    by blast
  then have a: "(sent_at SIGTERM (events ?R) = [c]
          \<or> (\<exists>s. own_exit (proc e) = Some (c, s)
               \<and> ?R = \<lparr>outcome = Returned (wait_err s), finished = c, events = [(0, Start)]\<rparr>))
       \<and> set (sent_at SIGKILL (events ?R)) \<subseteq> {c + nat grace}"
  proof cases
    case signalled
    then show ?thesis using terminate_sent [of c grace e "own_exit (proc e)" "[(0, Start)]"] by simp
  next
    case gone
    then show ?thesis by simp
  qed
  have b: "events ?R = [(0, Start), (c, Signal SIGTERM), (c + nat grace, Signal SIGKILL)]"
    if g: "0 < grace" and al: "\<forall>d s. first_exit (own_exit (proc e))
                 (map_option (\<lambda>(d, s). (c + d, s)) (on_term (proc e))) = Some (d, s) \<longrightarrow> c + nat grace < d"
  proof -
    have "\<forall>d s. own_exit (proc e) = Some (d, s) \<longrightarrow> c + nat grace < d"
      using al by (auto simp: first_exit_def split: option.splits if_splits)
    then have "\<not> (\<exists>s. own_exit (proc e) = Some (c, s))" by auto
    with running_cancelled [OF assms, of grace]
    have "?R = terminate c grace e (own_exit (proc e)) [(0, Start)]" by blast
    then show ?thesis using terminate_alive [OF g al, of "[(0, Start)]"] by simp
  qed
  from a b run_late_cancel show ?thesis by blast
qed

text \<open>
  The theorem at the stubborn child, cancelled at 20 with a run period of 60 and a grace
  period of 10, and for a cancellation at 75, after the tick.
\<close>

theorem cancel_in_running_witness:
  "(0::int) < 60 \<and> start_err (started stubborn 0 0) = None \<and> (20::nat) \<le> nat 60
   \<and> own_exit (proc (started stubborn 0 0)) = None
   \<and> sent_at SIGTERM (events (run (Some 20) 60 10 (started stubborn 0 0))) = [20]
   \<and> events (run (Some 20) 60 10 (started stubborn 0 0)) =
        [(0, Start), (20, Signal SIGTERM), (30, Signal SIGKILL)]
   \<and> run (Some 75) 60 10 (started stubborn 0 0) = run None 60 10 (started stubborn 0 0)"
proof -
  have a: "start_err (started stubborn 0 0) = None" "own_exit (proc (started stubborn 0 0)) = None"
    "on_term (proc (started stubborn 0 0)) = None"
    by (simp_all add: started_def stubborn_def)
  have h: "\<forall>d s. own_exit (proc (started stubborn 0 0)) = Some (d, s) \<longrightarrow> 20 \<le> d"
    by (simp add: a)
  have p: "(0::int) < 60" and q: "(20::nat) \<le> nat 60" by simp_all
  note th = cancel_in_running [OF p a(1) q h, where grace = 10]
  from th have late: "\<forall>c'. nat 60 < c' \<longrightarrow>
      run (Some c') 60 10 (started stubborn 0 0) = run None 60 10 (started stubborn 0 0)"
    by blast
  then have "run (Some 75) 60 10 (started stubborn 0 0) = run None 60 10 (started stubborn 0 0)"
    by simp
  moreover from th a have "sent_at SIGTERM (events (run (Some 20) 60 10 (started stubborn 0 0))) = [20]"
    by (simp add: sent_at_def)
  moreover from th a have "events (run (Some 20) 60 10 (started stubborn 0 0)) =
        [(0, Start), (20, Signal SIGTERM), (30, Signal SIGKILL)]"
    by (simp add: first_exit_def)
  ultimately show ?thesis using a by simp
qed

text \<open>
  C5, as amended. When the child's exit and the first tick of the run ticker are ready at
  the same instant (and the context is not), the \<open>select\<close> takes either case, as the
  runtime's random number decides. When it takes the child's exit, \<open>run\<close> returns the
  child's outcome and calls \<open>Signal\<close> not at all. When it takes the ticker, \<open>run\<close> calls
  \<open>Signal\<close> with SIGTERM, which fails and is logged because the process has finished; with
  a positive grace period the next \<open>select\<close> takes the child's exit and \<open>run\<close> returns the
  same outcome, and no SIGKILL is sent.
\<close>

theorem exit_timer_tie:
  assumes "0 < runD" and "start_err e = None" and "own_exit (proc e) = Some (nat runD, s)"
    and "\<forall>c. ctx = Some c \<longrightarrow> nat runD < c"
  shows "run ctx runD grace e =
     (if even (pick_run e)
      then \<lparr>outcome = Returned (wait_err s), finished = nat runD, events = [(0, Start)]\<rparr>
      else \<lparr>outcome = (if 0 < grace then Returned (wait_err s) else Panicked), finished = nat runD,
            events = [(0, Start), (nat runD, Signal SIGTERM), (nat runD, LogFailed SIGTERM)]\<rparr>)"
proof -
  have sel: "select (pick_run e) 0 (ctx_case ctx @ done_case (own_exit (proc e)) @ [(nat runD, Tick)])
      = Some (nat runD, if even (pick_run e) then ChildDone (wait_err s) else Tick)"
    unfolding assms(3) by (rule select_exit_tick_tie [OF assms(4)])
  show ?thesis
  proof (cases "even (pick_run e)")
    case True
    then show ?thesis using run_unfold [OF assms(1,2) sel, of grace] by simp
  next
    case False
    then have r: "run ctx runD grace e = terminate (nat runD) grace e (Some (nat runD, s)) [(0, Start)]"
      using run_unfold [OF assms(1,2) sel, of grace] assms(3) by simp
    show ?thesis
    proof (cases "0 < grace")
      case True
      then show ?thesis using False r terminate_already_gone [of grace "nat runD" "nat runD" e s] by simp
    next
      case g: False
      then show ?thesis using False r terminate_panics [of grace "nat runD" e "Some (nat runD, s)"]
        by (simp add: send_def finished_by_def)
    qed
  qed
qed

text \<open>The theorem at a random number that selects the child's exit.\<close>

theorem exit_timer_tie_witness:
  "(0::int) < 60 \<and> start_err (started (exits 60 (Exited 0)) 2 0) = None
   \<and> own_exit (proc (started (exits 60 (Exited 0)) 2 0)) = Some (nat 60, Exited 0)
   \<and> run None 60 10 (started (exits 60 (Exited 0)) 2 0)
       = \<lparr>outcome = Returned None, finished = 60, events = [(0, Start)]\<rparr>"
  using exit_timer_tie [of 60 "started (exits 60 (Exited 0)) 2 0" "Exited 0" None 10]
  by (simp add: started_def exits_def wait_err_def)

text \<open>
  C5 as stated fails: with the child's exit and the tick both ready at 60 the \<open>select\<close>
  can take the tick, and then SIGTERM is sent.
\<close>

theorem exit_timer_tie_timer_taken:
  "select 1 0 (ctx_case None @ done_case (own_exit (exits 60 (Exited 0))) @ [(60, Tick)]) = Some (60, Tick)
   \<and> run None 60 10 (started (exits 60 (Exited 0)) 1 0)
       = \<lparr>outcome = Returned None, finished = 60,
          events = [(0, Start), (60, Signal SIGTERM), (60, LogFailed SIGTERM)]\<rparr>"
  by (simp add: run_defs)

text \<open>
  C9. When the run period is not positive, \<open>run\<close> panics in \<open>time.NewTicker\<close> before the
  child is started. When the grace period is not positive, lines 133 to 146 panic in
  \<open>time.NewTicker\<close> after SIGTERM was sent: every cycle that leaves the Running state
  otherwise than by the child's own exit panics there, with SIGTERM the only signal sent.
\<close>

theorem nonpositive_periods_panic:
  "(runD \<le> 0 \<longrightarrow> run ctx runD grace e = \<lparr>outcome = Panicked, finished = 0, events = []\<rparr>)
   \<and> (grace \<le> 0 \<longrightarrow>
        outcome (terminate now grace e ex evs) = Panicked
        \<and> signals_sent (events (terminate now grace e ex evs)) = signals_sent evs @ [SIGTERM])
   \<and> (grace \<le> 0 \<and> 0 < runD \<and> start_err e = None \<longrightarrow>
        (outcome (run ctx runD grace e) = Panicked
           \<and> signals_sent (events (run ctx runD grace e)) = [SIGTERM]
           \<and> sent_at SIGTERM (events (run ctx runD grace e)) = [term_at ctx runD])
        \<or> (\<exists>d s. own_exit (proc e) = Some (d, s) \<and> d \<le> term_at ctx runD
              \<and> run ctx runD grace e =
                   \<lparr>outcome = Returned (wait_err s), finished = d, events = [(0, Start)]\<rparr>))
   \<and> (grace \<le> 0 \<and> 0 < runD \<and> start_err e = None \<and> own_exit (proc e) = None \<longrightarrow>
        run ctx runD grace e = \<lparr>outcome = Panicked, finished = term_at ctx runD,
          events = [(0, Start), (term_at ctx runD, Signal SIGTERM)]\<rparr>)"
proof -
  have a: "runD \<le> 0 \<longrightarrow> run ctx runD grace e = \<lparr>outcome = Panicked, finished = 0, events = []\<rparr>"
    by (simp add: run_panics_first)
  have b: "grace \<le> 0 \<longrightarrow>
        outcome (terminate now grace e ex evs) = Panicked
        \<and> signals_sent (events (terminate now grace e ex evs)) = signals_sent evs @ [SIGTERM]"
    by (simp add: terminate_panics)
  have c: "(outcome (run ctx runD grace e) = Panicked
           \<and> signals_sent (events (run ctx runD grace e)) = [SIGTERM]
           \<and> sent_at SIGTERM (events (run ctx runD grace e)) = [term_at ctx runD])
        \<or> (\<exists>d s. own_exit (proc e) = Some (d, s) \<and> d \<le> term_at ctx runD
              \<and> run ctx runD grace e =
                   \<lparr>outcome = Returned (wait_err s), finished = d, events = [(0, Start)]\<rparr>)"
    if "grace \<le> 0" "0 < runD" "start_err e = None"
    using run_reaches_terminate [OF that(2,3), of ctx grace] that(1)
    by (auto simp: terminate_panics sent_at_send)
  have d: "run ctx runD grace e = \<lparr>outcome = Panicked, finished = term_at ctx runD,
          events = [(0, Start), (term_at ctx runD, Signal SIGTERM)]\<rparr>"
    if "grace \<le> 0" "0 < runD" "start_err e = None" "own_exit (proc e) = None"
    using run_reaches_terminate [OF that(2,3), of ctx grace] that(1,4)
    by (auto simp: terminate_panics send_def finished_by_def)
  from a b c d show ?thesis by blast
qed

text \<open>The theorem at a run period of zero and at a grace period of zero.\<close>

theorem nonpositive_periods_panic_witness:
  "run None 0 10 (started stubborn 0 0) = \<lparr>outcome = Panicked, finished = 0, events = []\<rparr>
   \<and> run None 60 0 (started stubborn 0 0) =
       \<lparr>outcome = Panicked, finished = 60, events = [(0, Start), (60, Signal SIGTERM)]\<rparr>"
  using nonpositive_periods_panic [where runD = 0 and ctx = None and grace = 10 and e = "started stubborn 0 0"]
    nonpositive_periods_panic [where runD = 60 and ctx = None and grace = 0 and e = "started stubborn 0 0"]
  by (simp add: started_def stubborn_def term_at_def)

section \<open>The loop and the relay\<close>




text \<open>
  C8, as amended. With a positive run period, when \<open>cmd.Start\<close> fails, \<open>run\<close> returns its
  error, \<open>main\<close> logs it with \<open>log.Fatal\<close> and exits with status 1, and no child is started
  then or later, whatever the cycles that would have followed.
\<close>

theorem start_error_fatal:
  assumes "0 < runF" and "start_err e = Some err"
  shows "run ctx runF graceF e = \<lparr>outcome = Returned (Some err), finished = 0, events = []\<rparr>
       \<and> loop cancel runF graceF now (e # es) =
           \<lparr>status = Exit 1, ended = now, log = [(now, LogFatal err)]\<rparr>"
proof -
  have r: "run c runF graceF e = \<lparr>outcome = Returned (Some err), finished = 0, events = []\<rparr>" for c
    using assms by (simp add: run_def NewTicker_def)
  show ?thesis using r [of ctx] loop_step [OF r, of cancel now es] by (simp add: shift_def)
qed

text \<open>The theorem at an executable that is not found.\<close>

theorem start_error_fatal_witness:
  "(0::int) < 60 \<and> start_err missing = Some (LookPathError ''executable file not found in $PATH'')
   \<and> run None 60 10 missing =
        \<lparr>outcome = Returned (Some (LookPathError ''executable file not found in $PATH'')), finished = 0, events = []\<rparr>
   \<and> loop None 60 10 0 [missing, started stubborn 0 0] =
        \<lparr>status = Exit 1, ended = 0, log = [(0, LogFatal (LookPathError ''executable file not found in $PATH''))]\<rparr>"
  using start_error_fatal [where runF = 60 and e = missing
      and err = "LookPathError ''executable file not found in $PATH''" and ctx = None and graceF = 10
      and cancel = None and now = 0 and es = "[started stubborn 0 0]"]
  by (simp add: missing_def)

text \<open>
  C8 as stated fails for a run period of zero: \<open>run\<close> panics before \<open>cmd.Start\<close> is called,
  so that no error is returned and none is logged.
\<close>

theorem start_error_zero_run_period:
  "start_err missing = Some (LookPathError ''executable file not found in $PATH'')
   \<and> run None 0 10 missing = \<lparr>outcome = Panicked, finished = 0, events = []\<rparr>
   \<and> loop None 0 10 0 [missing] = \<lparr>status = Crash, ended = 0, log = []\<rparr>"
  by (simp add: run_defs missing_def ctx_from_def shift_def)

text \<open>
  C6, as amended. The context, once cancelled, is cancelled at every later instant. A cycle
  that starts when the context is cancelled finds the \<open>Done\<close> channel ready at once: it
  sends SIGTERM at its first instant, without waiting for the run ticker, unless the
  child's exit is ready at that same instant and the \<open>select\<close> takes it.
\<close>

theorem cancelled_before_cycle:
  assumes "cancelled cancel now" and "0 < runD" and "start_err e = None"
  shows "(\<forall>t. now \<le> t \<longrightarrow> cancelled cancel t)
       \<and> (sent_at SIGTERM (events (run (ctx_from cancel now) runD grace e)) = [0]
          \<or> (\<exists>s. own_exit (proc e) = Some (0, s)
               \<and> run (ctx_from cancel now) runD grace e =
                    \<lparr>outcome = Returned (wait_err s), finished = 0, events = [(0, Start)]\<rparr>))
       \<and> ((\<forall>s. own_exit (proc e) \<noteq> Some (0, s))
            \<longrightarrow> sent_at SIGTERM (events (run (ctx_from cancel now) runD grace e)) = [0])"
proof -
  have mono: "\<forall>t. now \<le> t \<longrightarrow> cancelled cancel t"
    using assms(1) by (auto simp: cancelled_def split: option.splits)
  have c: "ctx_from cancel now = Some 0" by (rule cancelled_ctx_from [OF assms(1)])
  have "run (Some 0) runD grace e = terminate 0 grace e (own_exit (proc e)) [(0, Start)]
       \<or> (\<exists>s. own_exit (proc e) = Some (0, s)
            \<and> run (Some 0) runD grace e = \<lparr>outcome = Returned (wait_err s), finished = 0, events = [(0, Start)]\<rparr>)"
    by (rule running_cancelled [OF assms(2,3)]) simp_all
  then show ?thesis unfolding c using mono
    by (auto simp: terminate_sent(1))
qed

text \<open>The theorem for a context cancelled at 5 and a cycle started at 10.\<close>

theorem cancelled_before_cycle_witness:
  "cancelled (Some 5) 10 \<and> (0::int) < 60 \<and> start_err (started stubborn 0 0) = None
   \<and> cancelled (Some 5) 11
   \<and> sent_at SIGTERM (events (run (ctx_from (Some 5) 10) 60 10 (started stubborn 0 0))) = [0]"
  using cancelled_before_cycle [of "Some 5" 10 60 "started stubborn 0 0" 10]
  by (simp add: cancelled_def started_def stubborn_def)

text \<open>
  C6 as stated fails when the child's exit is ready together with the cancelled context:
  the \<open>select\<close> can take the exit, and the cycle ends without SIGTERM.
\<close>

theorem cancelled_cycle_exit_taken:
  "cancelled (Some 5) 10
   \<and> run (ctx_from (Some 5) 10) 60 10 (started (exits 0 (Exited 0)) 1 0)
       = \<lparr>outcome = Returned None, finished = 0, events = [(0, Start)]\<rparr>
   \<and> sent_at SIGTERM (events (run (ctx_from (Some 5) 10) 60 10 (started (exits 0 (Exited 0)) 1 0))) = []"
  by (simp add: run_defs cancelled_def ctx_from_def sent_at_def)



section \<open>The two versions of \<open>run\<close>\<close>

text \<open>
  C10, as amended. With a positive grace period, a sum of the run and grace periods that
  does not overflow \<open>int64\<close>, and a context of \<open>main\<close> that is never cancelled, the earlier
  version, under the context with the timeout of line 81, and the later version send the
  same signals, in the same order and at the same instants, and return the same outcome,
  with one exception: when SIGKILL was delivered and the child nevertheless ended with
  status zero, the later version returns \<open>nil\<close> and the earlier one the context's error,
  which \<open>cmd.Wait\<close> returns then. (The random number of the later version's second \<open>select\<close>
  decides the watch of \<open>exec.CommandContext\<close> in the earlier one.)
\<close>

theorem earlier_agrees_without_cancel:
  assumes "0 < grace" and "runD + grace < 2 ^ 63"
  shows "outcome (run_earlier (cycle_ctx None runD grace) runD e) =
           (if kill_delivered (events (run None runD grace e))
               \<and> outcome (run None runD grace e) = Returned None
            then Returned (Some CtxError) else outcome (run None runD grace e))
       \<and> signals_sent (events (run_earlier (cycle_ctx None runD grace) runD e))
           = signals_sent (events (run None runD grace e))
       \<and> (\<forall>s. sent_at s (events (run_earlier (cycle_ctx None runD grace) runD e))
           = sent_at s (events (run None runD grace e)))"
proof (cases "0 < runD")
  case False
  then show ?thesis by (simp add: run_earlier_def run_def NewTicker_def kill_delivered_def)
next
  case pos: True
  define T where "T = nat runD"
  define K where "K = T + nat grace"
  define ex0 where "ex0 = own_exit (proc e)"
  have wt: "cycle_ctx None runD grace = Some K"
    using assms pos
    by (simp add: cycle_ctx_def add64_no_wrap WithTimeout_def K_def T_def nat_add_distrib)
  have Kpos: "0 < K" "T \<le> K" "T < K" using assms pos by (simp_all add: K_def T_def)
  let ?A = "run_earlier (Some K) runD e" and ?B = "run None runD grace e"
  have goal: "outcome ?A = (if kill_delivered (events ?B) \<and> outcome ?B = Returned None
                            then Returned (Some CtxError) else outcome ?B)
       \<and> signals_sent (events ?A) = signals_sent (events ?B)
       \<and> (\<forall>s. sent_at s (events ?A) = sent_at s (events ?B))"
  proof (cases "start_err e")
    case (Some err)
    then show ?thesis using pos Kpos
      by (simp add: run_earlier_def run_def NewTicker_def kill_delivered_def split: error.splits)
  next
    case None
    obtain t1 b1 where sel: "select (pick_run e) 0 (ctx_case None @ done_case ex0 @ [(T, Tick)]) = Some (t1, b1)"
      using select_running_ex by blast
    then have sel': "select (pick_run e) 0 (done_case ex0 @ [(T, Tick)]) = Some (t1, b1)"
      by (simp add: ctx_case_def)
    note r = select_running [OF sel]
    note ua = run_earlier_unfold [OF pos None Kpos(2) [unfolded T_def] Kpos(1) sel' [unfolded ex0_def T_def]]
    note ub = run_unfold [OF pos None sel [unfolded ex0_def T_def], of grace]
    from r(1) consider s where "b1 = ChildDone (wait_err s)" | "b1 = Tick" "t1 = T" by auto
    then show ?thesis
    proof cases
      case 1
      then show ?thesis using ua ub by simp
    next
      case 2
      obtain ok ex' where d: "deliver T ex0 (on_term (proc e)) = (ok, ex')"
        by (cases "deliver T ex0 (on_term (proc e))")
      obtain t2 b2 where sel2: "select (pick_grace e) T (done_case ex' @ [(T + nat grace, Tick)]) = Some (t2, b2)"
        using select_grace_ex by blast
      note g = select_grace [OF sel2]
      have selw: "select (pick_grace e) T (done_case ex' @ [(K, CtxDone)]) = Some (t2, relabel b2)"
        using sel2 by (simp add: select_watch K_def)
      have B: "?B = (case b2 of ChildDone err \<Rightarrow> \<lparr>outcome = Returned err, finished = t2, events = [(0, Start)] @ send T SIGTERM ok\<rparr>
            | _ \<Rightarrow> kill t2 e ex' ([(0, Start)] @ send T SIGTERM ok))"
        using ub 2 terminate_unfold [OF assms(1) d [unfolded ex0_def] sel2, of "[(0, Start)]"] by (simp add: ex0_def)
      from g(1) consider d s where "b2 = ChildDone (wait_err s)" "ex' = Some (d, s)" "t2 = max T d"
        | "b2 = Tick" "t2 = K" by (auto simp: K_def)
      then show ?thesis
      proof cases
        case 1
        have w: "watch_ctx (pick_grace e) T (Some K) e ex' = ([], False, ex')"
          using selw 1 by (simp add: watch_ctx_def relabel_def)
        have A: "?A = \<lparr>outcome = Returned (wait_err s), finished = max T d, events = (0, Start) # send T SIGTERM ok\<rparr>"
          using ua 2 d w 1 by (simp add: ex0_def select_done wait_ctx_def)
        show ?thesis unfolding A using B 1 by simp
      next
        case 2
        obtain ok2 ex2 where d2: "deliver K ex' (on_kill (proc e)) = (ok2, ex2)"
          by (cases "deliver K ex' (on_kill (proc e))")
        have w: "watch_ctx (pick_grace e) T (Some K) e ex' = ([(K, Signal SIGKILL)], ok2, ex2)"
          using selw 2 d2 by (simp add: watch_ctx_def relabel_def)
        have A: "?A = (case ex2 of None \<Rightarrow> \<lparr>outcome = Blocked, finished = T, events = (0, Start) # send T SIGTERM ok @ [(K, Signal SIGKILL)]\<rparr>
                 | Some (d, s) \<Rightarrow> \<lparr>outcome = Returned (wait_ctx ok2 (wait_err s)), finished = max T d, events = (0, Start) # send T SIGTERM ok @ [(K, Signal SIGKILL)]\<rparr>)"
          using ua \<open>b1 = Tick\<close> \<open>t1 = T\<close> d w by (simp add: ex0_def select_done split: option.splits)
        have B': "?B = (case ex2 of None \<Rightarrow> \<lparr>outcome = Blocked, finished = K, events = (0, Start) # send T SIGTERM ok @ send K SIGKILL ok2\<rparr>
                 | Some (d, s) \<Rightarrow> \<lparr>outcome = Returned (wait_err s), finished = max K d, events = (0, Start) # send T SIGTERM ok @ send K SIGKILL ok2\<rparr>)"
          using B 2 by (simp add: kill_eq d2 split: option.splits)
        show ?thesis
        proof (cases ex2)
          case None
          then show ?thesis unfolding A B'
            by (simp add: signals_sent_def sent_at_def send_def)
        next
          case (Some p)
          obtain d s where p: "p = (d, s)" by (cases p)
          have kd: "kill_delivered ((0, Start) # send T SIGTERM ok @ send K SIGKILL ok2) = ok2"
            by simp
          show ?thesis unfolding A B' Some p
            by (simp add: kd wait_ctx_def) (simp add: signals_sent_def sent_at_def send_def)
        qed
      qed
    qed
  qed
  then show ?thesis unfolding wt .
qed

text \<open>The theorem at the stubborn child.\<close>

theorem earlier_agrees_without_cancel_witness:
  "(0::int) < 10 \<and> (60::int) + 10 < 2 ^ 63
   \<and> outcome (run_earlier (cycle_ctx None 60 10) 60 (started stubborn 0 0))
       = Returned (Some (ExitError (Signaled SIGKILL)))
   \<and> outcome (run None 60 10 (started stubborn 0 0)) = Returned (Some (ExitError (Signaled SIGKILL)))
   \<and> signals_sent (events (run_earlier (cycle_ctx None 60 10) 60 (started stubborn 0 0)))
       = [SIGTERM, SIGKILL]
   \<and> signals_sent (events (run None 60 10 (started stubborn 0 0))) = [SIGTERM, SIGKILL]"
proof -
  have "run None 60 10 (started stubborn 0 0) =
      \<lparr>outcome = Returned (Some (ExitError (Signaled SIGKILL))), finished = 70,
       events = [(0, Start), (60, Signal SIGTERM), (70, Signal SIGKILL)]\<rparr>"
    by (simp add: run_defs)
  then show ?thesis
    using earlier_agrees_without_cancel [where runD = 60 and grace = 10 and e = "started stubborn 0 0"]
    by (simp add: signals_sent_def)
qed

text \<open>
  C10 as stated fails in four ways. Under cancellation: for a context cancelled at 5 and a
  child that exits with status zero one unit after SIGTERM, the earlier version sends
  SIGKILL and returns the \<open>ExitError\<close> of a killed child, the later one sends SIGTERM and
  returns \<open>nil\<close>. When the sum of line 81 overflows: for run and grace periods of
  4611686018427387904 nanoseconds each the sum is negative, the context is done at once and
  the earlier version returns its error without starting the child, which the later one
  starts. For a grace period of zero: the earlier version returns the \<open>ExitError\<close> of the
  child that its context killed, the later one panics. And when SIGKILL is delivered to a
  child that ends with status zero: the earlier version returns the context's error, the
  later one \<open>nil\<close>.
\<close>

theorem earlier_kills_on_cancel:
  "run_earlier (cycle_ctx (Some 5) 60 10) 60 (started polite 0 0)
     = \<lparr>outcome = Returned (Some (ExitError (Signaled SIGKILL))), finished = 5,
        events = [(0, Start), (5, Signal SIGKILL)]\<rparr>
   \<and> run (Some 5) 60 10 (started polite 0 0)
     = \<lparr>outcome = Returned None, finished = 6, events = [(0, Start), (5, Signal SIGTERM)]\<rparr>
   \<and> cycle_ctx None 4611686018427387904 4611686018427387904 = Some 0
   \<and> run_earlier (cycle_ctx None 4611686018427387904 4611686018427387904)
         4611686018427387904 (started polite 0 0)
     = \<lparr>outcome = Returned (Some CtxError), finished = 0, events = []\<rparr>
   \<and> run None 4611686018427387904 4611686018427387904 (started polite 0 0)
     = \<lparr>outcome = Returned None, finished = 4611686018427387905,
        events = [(0, Start), (4611686018427387904, Signal SIGTERM)]\<rparr>
   \<and> outcome (run_earlier (cycle_ctx None 60 0) 60 (started stubborn 0 0))
     = Returned (Some (ExitError (Signaled SIGKILL)))
   \<and> outcome (run None 60 0 (started stubborn 0 0)) = Panicked
   \<and> run_earlier (cycle_ctx None 60 10) 60 (started exiting 0 0)
     = \<lparr>outcome = Returned (Some CtxError), finished = 70,
        events = [(0, Start), (60, Signal SIGTERM), (70, Signal SIGKILL)]\<rparr>
   \<and> run None 60 10 (started exiting 0 0)
     = \<lparr>outcome = Returned None, finished = 70,
        events = [(0, Start), (60, Signal SIGTERM), (70, Signal SIGKILL)]\<rparr>"
  by (simp add: run_defs earlier_defs exiting_def)

end
